theory Spec2Isabelle
  imports Main
begin

section \<open>Python values, errors and the process environment\<close>

text \<open>
  The application object of \<^verbatim>\<open>enterprisegatewayapp.py\<close> reads its tunables from
  environment variables through functions decorated with \<^verbatim>\<open>@default\<close>. The values
  these functions handle are strings, \<^verbatim>\<open>None\<close>, integers, booleans, lists of strings
  and (after the trait has stored them) sets of strings.
\<close>

datatype pyval =
    PNone
  | PStr string
  | PInt int
  | PBool bool
  | PList "string list"
  | PSet "string set"

datatype error =
    AttributeError
  | TypeError
  | ValueError
  | TraitError
  | RuntimeError string
  | KeyboardInterrupt
  | ExternalError string

type_synonym environ = "string \<rightharpoonup> string"

definition os_getenv :: "environ \<Rightarrow> string \<Rightarrow> pyval \<Rightarrow> pyval" where
  \<comment> \<open>\<^verbatim>\<open>os.getenv(key, default)\<close>: the variable's string when it is set, else the default.\<close>
  "os_getenv env key dflt = (case env key of Some v \<Rightarrow> PStr v | None \<Rightarrow> dflt)"

subsection \<open>String methods and conversions\<close>

text \<open>
  A character of a \<open>string\<close> stands for the code point of the same number, so the
  strings here are the Python strings of code points below 256. On them \<open>lower\<close> is
  \<^verbatim>\<open>str.lower\<close> and \<open>parse_int\<close> is \<^verbatim>\<open>int\<close> of Python 3: the capital letters are
  \<^verbatim>\<open>A\<close> to \<^verbatim>\<open>Z\<close> and the code points 192 to 222 but the multiplication sign 215, white
  space is 9 to 13, 28 to 32, 133 and 160, and the decimal digits are \<^verbatim>\<open>0\<close> to \<^verbatim>\<open>9\<close>.
\<close>

fun split_comma :: "string \<Rightarrow> string list" where
  "split_comma [] = [[]]"
| "split_comma (c # cs) =
     (if c = CHR '','' then [] # split_comma cs
      else (case split_comma cs of [] \<Rightarrow> [[c]] | w # ws \<Rightarrow> (c # w) # ws))"

definition py_split_comma :: "pyval \<Rightarrow> error + pyval" where
  \<comment> \<open>\<^verbatim>\<open>x.split(',')\<close>; only a string has the method.\<close>
  "py_split_comma x = (case x of PStr s \<Rightarrow> Inr (PList (split_comma s)) | _ \<Rightarrow> Inl AttributeError)"

definition lower_char :: "char \<Rightarrow> char" where
  "lower_char c =
     (let n = (of_char c :: nat)
      in if (65 \<le> n \<and> n \<le> 90) \<or> (192 \<le> n \<and> n \<le> 222 \<and> n \<noteq> 215) then char_of (n + 32)
         else c)"

definition lower :: "string \<Rightarrow> string" where
  "lower s = map lower_char s"

definition py_lower :: "pyval \<Rightarrow> error + pyval" where
  "py_lower x = (case x of PStr s \<Rightarrow> Inr (PStr (lower s)) | _ \<Rightarrow> Inl AttributeError)"

definition py_bool :: "pyval \<Rightarrow> bool" where
  \<comment> \<open>Python truthiness, as \<^verbatim>\<open>bool(x)\<close> and \<^verbatim>\<open>if x:\<close> compute it.\<close>
  "py_bool x =
     (case x of
        PNone \<Rightarrow> False
      | PStr s \<Rightarrow> s \<noteq> []
      | PInt i \<Rightarrow> i \<noteq> 0
      | PBool b \<Rightarrow> b
      | PList xs \<Rightarrow> xs \<noteq> []
      | PSet S \<Rightarrow> S \<noteq> {})"

definition is_space :: "char \<Rightarrow> bool" where
  "is_space c =
     (let n = (of_char c :: nat)
      in (9 \<le> n \<and> n \<le> 13) \<or> (28 \<le> n \<and> n \<le> 32) \<or> n = 133 \<or> n = 160)"

definition strip :: "string \<Rightarrow> string" where
  "strip s = rev (dropWhile is_space (rev (dropWhile is_space s)))"

definition is_digit :: "char \<Rightarrow> bool" where
  "is_digit c = (let n = (of_char c :: nat) in 48 \<le> n \<and> n \<le> 57)"

fun digits_value :: "nat \<Rightarrow> string \<Rightarrow> nat" where
  "digits_value acc [] = acc"
| "digits_value acc (c # cs) = digits_value (10 * acc + (of_char c - 48)) cs"

fun digit_groups :: "bool \<Rightarrow> string \<Rightarrow> bool" where
  "digit_groups after_digit [] = after_digit"
| "digit_groups after_digit (c # cs) =
     (if is_digit c then digit_groups True cs
      else if c = CHR ''_'' \<and> after_digit then digit_groups False cs
      else False)"

definition parse_digits :: "string \<Rightarrow> error + int" where
  \<comment> \<open>Digits, with single underscores between digits only.\<close>
  "parse_digits s =
     (if digit_groups False s then Inr (int (digits_value 0 (filter is_digit s)))
      else Inl ValueError)"

definition parse_int :: "string \<Rightarrow> error + int" where
  \<comment> \<open>\<^verbatim>\<open>int(s)\<close> on a string: surrounding white space, an optional sign, decimal digits
      in groups.\<close>
  "parse_int s =
     (case strip s of
        [] \<Rightarrow> Inl ValueError
      | c # cs \<Rightarrow>
          if c = CHR ''-'' then map_sum id uminus (parse_digits cs)
          else if c = CHR ''+'' then parse_digits cs
          else parse_digits (c # cs))"

definition py_int :: "pyval \<Rightarrow> error + pyval" where
  "py_int x =
     (case x of
        PInt i \<Rightarrow> Inr (PInt i)
      | PBool b \<Rightarrow> Inr (PInt (if b then 1 else 0))
      | PStr s \<Rightarrow> map_sum id PInt (parse_int s)
      | _ \<Rightarrow> Inl TypeError)"

section \<open>Tunable settings and their dynamic defaults\<close>

definition remote_hosts_env :: string where
  "remote_hosts_env = ''EG_REMOTE_HOSTS''"

definition remote_hosts_default_value :: string where
  "remote_hosts_default_value = ''localhost''"

definition remote_hosts_default :: "environ \<Rightarrow> error + pyval" where
  "remote_hosts_default env =
     py_split_comma (os_getenv env remote_hosts_env (PStr remote_hosts_default_value))"

definition yarn_endpoint_env :: string where
  "yarn_endpoint_env = ''EG_YARN_ENDPOINT''"

definition yarn_endpoint_default :: "environ \<Rightarrow> error + pyval" where
  "yarn_endpoint_default env = Inr (os_getenv env yarn_endpoint_env PNone)"

definition alt_yarn_endpoint_env :: string where
  "alt_yarn_endpoint_env = ''EG_ALT_YARN_ENDPOINT''"

definition alt_yarn_endpoint_default :: "environ \<Rightarrow> error + pyval" where
  "alt_yarn_endpoint_default env = Inr (os_getenv env alt_yarn_endpoint_env PNone)"

definition yarn_endpoint_security_enabled_env :: string where
  "yarn_endpoint_security_enabled_env = ''EG_YARN_ENDPOINT_SECURITY_ENABLED''"

definition yarn_endpoint_security_enabled_default_value :: bool where
  "yarn_endpoint_security_enabled_default_value = False"

definition yarn_endpoint_security_enabled_default :: "environ \<Rightarrow> error + pyval" where
  "yarn_endpoint_security_enabled_default env =
     Inr (PBool (py_bool (os_getenv env yarn_endpoint_security_enabled_env
                            (PBool yarn_endpoint_security_enabled_default_value))))"

definition conductor_endpoint_env :: string where
  "conductor_endpoint_env = ''EG_CONDUCTOR_ENDPOINT''"

definition conductor_endpoint_default_value :: pyval where
  "conductor_endpoint_default_value = PNone"

definition conductor_endpoint_default :: "environ \<Rightarrow> error + pyval" where
  "conductor_endpoint_default env =
     Inr (os_getenv env conductor_endpoint_env conductor_endpoint_default_value)"

definition impersonation_enabled_env :: string where
  "impersonation_enabled_env = ''EG_IMPERSONATION_ENABLED''"

definition impersonation_enabled_default :: "environ \<Rightarrow> error + pyval" where
  "impersonation_enabled_default env =
     (case py_lower (os_getenv env impersonation_enabled_env (PStr ''false'')) of
        Inl e \<Rightarrow> Inl e
      | Inr v \<Rightarrow> Inr (PBool (py_bool (PBool (v = PStr ''true'')))))"

definition unauthorized_users_env :: string where
  "unauthorized_users_env = ''EG_UNAUTHORIZED_USERS''"

definition unauthorized_users_default_value :: string where
  "unauthorized_users_default_value = ''root''"

definition unauthorized_users_default :: "environ \<Rightarrow> error + pyval" where
  "unauthorized_users_default env =
     py_split_comma (os_getenv env unauthorized_users_env (PStr unauthorized_users_default_value))"

definition authorized_users_env :: string where
  "authorized_users_env = ''EG_AUTHORIZED_USERS''"

definition authorized_users_default :: "environ \<Rightarrow> error + pyval" where
  "authorized_users_default env =
     (let au_env = os_getenv env authorized_users_env PNone
      in if au_env \<noteq> PNone then py_split_comma au_env else Inr (PList []))"

definition port_range_env :: string where
  "port_range_env = ''EG_PORT_RANGE''"

definition port_range_default_value :: string where
  "port_range_default_value = ''0..0''"

definition port_range_default :: "environ \<Rightarrow> error + pyval" where
  "port_range_default env = Inr (os_getenv env port_range_env (PStr port_range_default_value))"

definition max_kernels_per_user_env :: string where
  "max_kernels_per_user_env = ''EG_MAX_KERNELS_PER_USER''"

definition max_kernels_per_user_default_value :: int where
  "max_kernels_per_user_default_value = - 1"

definition max_kernels_per_user_default :: "environ \<Rightarrow> error + pyval" where
  "max_kernels_per_user_default env =
     py_int (os_getenv env max_kernels_per_user_env (PInt max_kernels_per_user_default_value))"

definition ws_ping_interval_env :: string where
  "ws_ping_interval_env = ''EG_WS_PING_INTERVAL_SECS''"

definition ws_ping_interval_default_value :: int where
  "ws_ping_interval_default_value = 30"

definition ws_ping_interval_default :: "environ \<Rightarrow> error + pyval" where
  "ws_ping_interval_default env =
     py_int (os_getenv env ws_ping_interval_env (PInt ws_ping_interval_default_value))"

subsection \<open>The traits and their resolution\<close>

text \<open>
  Each tunable is declared as a trait with \<^verbatim>\<open>config=True\<close>. An explicitly
  configured value is assigned to the trait; without one, the function registered with
  \<^verbatim>\<open>@default\<close> supplies the value when the trait is first read. Either way the trait
  validates the value against its declaration: a value of another type, and
  \<^verbatim>\<open>None\<close> unless the declaration says \<^verbatim>\<open>allow_none=True\<close>, is refused with a
  \<^verbatim>\<open>TraitError\<close>; a trait declared \<^verbatim>\<open>Set\<close> stores a list as the set of its elements;
  a trait declared \<^verbatim>\<open>Integer\<close> takes a boolean, which is an integer in Python.
\<close>

datatype setting =
    RemoteHosts
  | YarnEndpoint
  | AltYarnEndpoint
  | YarnEndpointSecurityEnabled
  | ConductorEndpoint
  | ImpersonationEnabled
  | UnauthorizedUsers
  | AuthorizedUsers
  | PortRange
  | MaxKernelsPerUser
  | WsPingInterval

datatype kind = KString | KInt | KBool | KList | KSet

fun declared_kind :: "setting \<Rightarrow> kind" where
  "declared_kind RemoteHosts = KList"
| "declared_kind YarnEndpoint = KString"
| "declared_kind AltYarnEndpoint = KString"
| "declared_kind YarnEndpointSecurityEnabled = KBool"
| "declared_kind ConductorEndpoint = KString"
| "declared_kind ImpersonationEnabled = KBool"
| "declared_kind UnauthorizedUsers = KSet"
| "declared_kind AuthorizedUsers = KSet"
| "declared_kind PortRange = KString"
| "declared_kind MaxKernelsPerUser = KInt"
| "declared_kind WsPingInterval = KInt"


fun dynamic_default :: "setting \<Rightarrow> environ \<Rightarrow> error + pyval" where
  "dynamic_default RemoteHosts = remote_hosts_default"
| "dynamic_default YarnEndpoint = yarn_endpoint_default"
| "dynamic_default AltYarnEndpoint = alt_yarn_endpoint_default"
| "dynamic_default YarnEndpointSecurityEnabled = yarn_endpoint_security_enabled_default"
| "dynamic_default ConductorEndpoint = conductor_endpoint_default"
| "dynamic_default ImpersonationEnabled = impersonation_enabled_default"
| "dynamic_default UnauthorizedUsers = unauthorized_users_default"
| "dynamic_default AuthorizedUsers = authorized_users_default"
| "dynamic_default PortRange = port_range_default"
| "dynamic_default MaxKernelsPerUser = max_kernels_per_user_default"
| "dynamic_default WsPingInterval = ws_ping_interval_default"

fun allow_none :: "setting \<Rightarrow> bool" where
  "allow_none YarnEndpoint = True"
| "allow_none AltYarnEndpoint = True"
| "allow_none s = False"

fun validate_kind :: "kind \<Rightarrow> pyval \<Rightarrow> error + pyval" where
  "validate_kind KString (PStr x) = Inr (PStr x)"
| "validate_kind KInt (PInt i) = Inr (PInt i)"
| "validate_kind KInt (PBool b) = Inr (PBool b)"
| "validate_kind KBool (PBool b) = Inr (PBool b)"
| "validate_kind KList (PList xs) = Inr (PList xs)"
| "validate_kind KSet (PSet S) = Inr (PSet S)"
| "validate_kind KSet (PList xs) = Inr (PSet (set xs))"
| "validate_kind k v = Inl TraitError"

definition trait_validate :: "setting \<Rightarrow> pyval \<Rightarrow> error + pyval" where
  "trait_validate s v =
     (if v = PNone then (if allow_none s then Inr PNone else Inl TraitError)
      else validate_kind (declared_kind s) v)"

definition resolve :: "setting \<Rightarrow> pyval option \<Rightarrow> environ \<Rightarrow> error + pyval" where
  "resolve s override env =
     (case override of
        Some v \<Rightarrow> trait_validate s v
      | None \<Rightarrow>
          (case dynamic_default s env of
             Inl e \<Rightarrow> Inl e
           | Inr v \<Rightarrow> trait_validate s v))"


fun env_reading :: "kind \<Rightarrow> string \<Rightarrow> error + pyval" where
  "env_reading KString str = Inr (PStr str)"
| "env_reading KList str = Inr (PList (split_comma str))"
| "env_reading KSet str = Inr (PSet (set (split_comma str)))"
| "env_reading KBool str = Inr (PBool (lower str = ''true''))"
| "env_reading KInt str = map_sum id PInt (parse_int str)"


section \<open>The application object and its collaborators\<close>

text \<open>
  The managers, the personality, the web application, the HTTP server and the event
  loop are objects of other packages. A call into one of them either raises or
  returns; which, is given by a \<open>collab\<close> record, and every call that returned is
  recorded in the application's trace, as are the log messages.
\<close>

datatype signum = SIGHUP | SIGTERM | SIGINT

datatype handler = SIG_DFL | SIG_IGN | Signal_stop

datatype callback = Stop_callback

type_synonym frame = unit

type_synonym kwargs = "(string \<times> string) list"

datatype call =
    NewKernelSpecManager
  | LoadNotebook string
  | NewKernelSpecManagerClass
  | NewKernelManager kwargs
  | NewSessionManager
  | NewKernelSessionManager kwargs
  | StartSessions
  | LoadApiModule string
  | GetattrCreatePersonality
  | CreatePersonality
  | PersonalityInitConfigurables
  | SuperInitWebapp
  | InitHttpServer
  | SuperStart
  | IOLoopStart
  | Shutdown
  | HttpServerStop
  | IOLoopStop

datatype event = Called call | Log_info string | Log_warning string

record collab =
  raises :: "call \<Rightarrow> error option"
  has_initialize_culler :: bool
  getuser :: string
  super_settings :: "string \<rightharpoonup> pyval"

record app =
  version :: string
  seed_uri :: "string option"
  default_kernel_name :: string
  prespawn_count :: "int option"
  max_kernels :: "int option"
  api :: string
  impersonation_enabled :: bool
  unauthorized_users :: "string set"
  ws_ping_interval :: int
  keyfile :: "string option"
  ip :: string
  port :: int
  seed_notebook :: "string option"
  contents_manager :: "string option"
  web_app_settings :: "(string \<rightharpoonup> pyval) option"
  io_loop :: "callback list option"
  handlers :: "signum \<Rightarrow> handler"
  trace :: "event list"

type_synonym outcome = "(error \<times> app) + app"

fun seq :: "(app \<Rightarrow> outcome) list \<Rightarrow> app \<Rightarrow> outcome" where
  "seq [] a = Inr a"
| "seq (s # ss) a = (case s a of Inl e \<Rightarrow> Inl e | Inr a' \<Rightarrow> seq ss a')"

definition ext :: "collab \<Rightarrow> call \<Rightarrow> app \<Rightarrow> outcome" where
  "ext c k a =
     (case raises c k of
        Some e \<Rightarrow> Inl (e, a)
      | None \<Rightarrow> Inr (a\<lparr>trace := trace a @ [Called k]\<rparr>))"

definition log_info :: "string \<Rightarrow> app \<Rightarrow> outcome" where
  "log_info msg a = Inr (a\<lparr>trace := trace a @ [Log_info msg]\<rparr>)"

definition log_warning :: "string \<Rightarrow> app \<Rightarrow> outcome" where
  "log_warning msg a = Inr (a\<lparr>trace := trace a @ [Log_warning msg]\<rparr>)"

definition final :: "outcome \<Rightarrow> app" where
  "final r = (case r of Inl (e, a) \<Rightarrow> a | Inr a \<Rightarrow> a)"

definition raised :: "outcome \<Rightarrow> error option" where
  "raised r = (case r of Inl (e, a) \<Rightarrow> Some e | Inr a \<Rightarrow> None)"

definition new_events :: "app \<Rightarrow> outcome \<Rightarrow> event list" where
  "new_events a r = drop (length (trace a)) (trace (final r))"

subsection \<open>Formatting of integers in messages\<close>

fun str_nat :: "nat \<Rightarrow> string" where
  "str_nat n =
     (if n < 10 then [char_of (48 + n)] else str_nat (n div 10) @ [char_of (48 + n mod 10)])"

declare str_nat.simps [simp del]

definition str_int :: "int \<Rightarrow> string" where
  "str_int i = (if i < 0 then CHR ''-'' # str_nat (nat (- i)) else str_nat (nat i))"

subsection \<open>\<^verbatim>\<open>init_configurables\<close>\<close>

definition culler_warning :: string where
  "culler_warning =
     ''Older version of Notebook detected - idle kernels will not be culled.  '' @
     ''Culling requires Notebook >= 5.1.0.''"

definition prespawn_message :: "int \<Rightarrow> int \<Rightarrow> string" where
  "prespawn_message p m =
     ''cannot prespawn '' @ str_int p @ ''; more than max kernels '' @ str_int m"

definition load_seed_notebook :: "collab \<Rightarrow> app \<Rightarrow> outcome" where
  "load_seed_notebook c a =
     (case seed_uri a of
        None \<Rightarrow> Inr a
      | Some uri \<Rightarrow>
          (case ext c (LoadNotebook uri) a of
             Inl e \<Rightarrow> Inl e
           | Inr a' \<Rightarrow> Inr (a'\<lparr>seed_notebook := Some uri\<rparr>)))"

definition default_kwargs :: "app \<Rightarrow> kwargs" where
  "default_kwargs a =
     (if default_kernel_name a \<noteq> [] then [(''default_kernel_name'', default_kernel_name a)]
      else [])"

definition detect_culler :: "collab \<Rightarrow> app \<Rightarrow> outcome" where
  "detect_culler c a =
     (if has_initialize_culler c then Inr a else log_warning culler_warning a)"

definition check_prespawn :: "app \<Rightarrow> outcome" where
  "check_prespawn a =
     (case prespawn_count a of
        None \<Rightarrow> Inr a
      | Some p \<Rightarrow>
          if p \<noteq> 0 then
            (case max_kernels a of
               None \<Rightarrow> Inr a
             | Some m \<Rightarrow>
                 if m \<noteq> 0 \<and> p > m then Inl (RuntimeError (prespawn_message p m), a)
                 else Inr a)
          else Inr a)"

definition init_configurables :: "collab \<Rightarrow> app \<Rightarrow> outcome" where
  "init_configurables c a =
     seq [ext c NewKernelSpecManager,
          (\<lambda>a. Inr (a\<lparr>seed_notebook := None\<rparr>)),
          load_seed_notebook c,
          ext c NewKernelSpecManagerClass,
          (\<lambda>a. ext c (NewKernelManager (default_kwargs a)) a),
          detect_culler c,
          ext c NewSessionManager,
          (\<lambda>a. ext c (NewKernelSessionManager (default_kwargs a)) a),
          ext c StartSessions,
          (\<lambda>a. Inr (a\<lparr>contents_manager := None\<rparr>)),
          check_prespawn,
          (\<lambda>a. ext c (LoadApiModule (api a)) a),
          ext c GetattrCreatePersonality,
          ext c CreatePersonality,
          ext c PersonalityInitConfigurables] a"

subsection \<open>\<^verbatim>\<open>init_webapp\<close>\<close>

definition super_init_webapp :: "collab \<Rightarrow> app \<Rightarrow> outcome" where
  "super_init_webapp c a =
     (case ext c SuperInitWebapp a of
        Inl e \<Rightarrow> Inl e
      | Inr a' \<Rightarrow> Inr (a'\<lparr>web_app_settings := Some (super_settings c)\<rparr>))"

definition set_setting :: "string \<Rightarrow> pyval \<Rightarrow> app \<Rightarrow> outcome" where
  "set_setting k v a =
     (case web_app_settings a of
        None \<Rightarrow> Inl (AttributeError, a)
      | Some st \<Rightarrow> Inr (a\<lparr>web_app_settings := Some (st(k \<mapsto> v))\<rparr>))"

definition setting_of :: "app \<Rightarrow> string \<Rightarrow> pyval option" where
  "setting_of a k = (case web_app_settings a of None \<Rightarrow> None | Some st \<Rightarrow> st k)"

definition init_webapp :: "collab \<Rightarrow> app \<Rightarrow> outcome" where
  "init_webapp c a =
     seq [super_init_webapp c,
          set_setting ''allow_remote_access'' (PBool True),
          (\<lambda>a. set_setting ''ws_ping_interval'' (PInt (ws_ping_interval a * 1000)) a)] a"

subsection \<open>\<^verbatim>\<open>stop\<close> and the signal handler\<close>

definition add_callback :: "callback \<Rightarrow> app \<Rightarrow> outcome" where
  "add_callback cb a =
     (case io_loop a of
        None \<Rightarrow> Inl (AttributeError, a)
      | Some q \<Rightarrow> Inr (a\<lparr>io_loop := Some (q @ [cb])\<rparr>))"

definition io_loop_stop :: "collab \<Rightarrow> app \<Rightarrow> outcome" where
  "io_loop_stop c a =
     (case io_loop a of None \<Rightarrow> Inl (AttributeError, a) | Some q \<Rightarrow> ext c IOLoopStop a)"

definition stop_closure :: "collab \<Rightarrow> app \<Rightarrow> outcome" where
  \<comment> \<open>The closure \<^verbatim>\<open>_stop\<close> defined inside \<^verbatim>\<open>stop\<close>.\<close>
  "stop_closure c a = seq [ext c HttpServerStop, io_loop_stop c] a"

definition stop :: "app \<Rightarrow> outcome" where
  "stop a = add_callback Stop_callback a"

definition signal_stop :: "collab \<Rightarrow> signum \<Rightarrow> frame \<Rightarrow> app \<Rightarrow> outcome" where
  \<comment> \<open>The method \<^verbatim>\<open>_signal_stop\<close>.\<close>
  "signal_stop c sig frm a =
     seq [log_info ''Received signal to terminate Enterprise Gateway.'', io_loop_stop c] a"

text \<open>
  The event loop is Tornado's. It calls each queued callback on its next iteration, in
  the order of queueing, and an exception of a callback is logged by the loop and does
  not keep the later callbacks from running.
\<close>

definition run_callback :: "collab \<Rightarrow> callback \<Rightarrow> app \<Rightarrow> app" where
  "run_callback c cb a = final (case cb of Stop_callback \<Rightarrow> stop_closure c a)"

definition run_pending :: "collab \<Rightarrow> app \<Rightarrow> app" where
  "run_pending c a =
     (case io_loop a of
        None \<Rightarrow> a
      | Some q \<Rightarrow> fold (run_callback c) q (a\<lparr>io_loop := Some []\<rparr>))"

subsection \<open>\<^verbatim>\<open>start\<close>\<close>

definition scheme_suffix :: "app \<Rightarrow> string" where
  "scheme_suffix a =
     (if py_bool (case keyfile a of None \<Rightarrow> PNone | Some f \<Rightarrow> PStr f) then ''s'' else [])"

definition banner :: "app \<Rightarrow> string" where
  "banner a =
     ''Jupyter Enterprise Gateway '' @ version a @ '' is available at http'' @
     scheme_suffix a @ ''://'' @ ip a @ '':'' @ str_int (port a)"

definition impersonation_message :: "string \<Rightarrow> string" where
  "impersonation_message gateway_user =
     ''Impersonation is enabled and gateway user '' @ [CHR 0x27] @ gateway_user @ [CHR 0x27] @
     '' is NOT specified in the set of unauthorized users!  '' @
     ''Kernels may execute as that user with elevated privileges.''"

definition warn_impersonation :: "collab \<Rightarrow> app \<Rightarrow> outcome" where
  "warn_impersonation c a =
     (if impersonation_enabled a then
        (let gateway_user = getuser c
         in if lower gateway_user \<notin> unauthorized_users a
            then log_warning (impersonation_message gateway_user) a
            else Inr a)
      else Inr a)"

definition signal_signal :: "signum \<Rightarrow> handler \<Rightarrow> app \<Rightarrow> outcome" where
  "signal_signal sig h a = Inr (a\<lparr>handlers := (handlers a)(sig := h)\<rparr>)"

definition start_setup :: "collab \<Rightarrow> app \<Rightarrow> outcome" where
  \<comment> \<open>The statements of \<^verbatim>\<open>start\<close> before its \<^verbatim>\<open>try\<close>.\<close>
  "start_setup c a =
     seq [ext c SuperStart,
          (\<lambda>a. log_info (banner a) a),
          warn_impersonation c,
          (\<lambda>a. Inr (a\<lparr>io_loop := Some []\<rparr>)),
          signal_signal SIGHUP SIG_IGN,
          signal_signal SIGTERM Signal_stop] a"

definition shutdown :: "collab \<Rightarrow> app \<Rightarrow> outcome" where
  "shutdown c a = ext c Shutdown a"

definition run_loop :: "collab \<Rightarrow> app \<Rightarrow> outcome" where
  \<comment> \<open>The \<^verbatim>\<open>try\<close> statement of \<^verbatim>\<open>start\<close>; the call of the loop returns once the loop
      has been stopped, or raises.\<close>
  "run_loop c a =
     (case ext c IOLoopStart a of
        Inr a' \<Rightarrow> shutdown c a'
      | Inl (e, a') \<Rightarrow>
          if e = KeyboardInterrupt
          then seq [log_info ''Interrupted...'', signal_signal SIGINT SIG_IGN, shutdown c] a'
          else (case shutdown c a' of Inl e' \<Rightarrow> Inl e' | Inr a'' \<Rightarrow> Inl (e, a'')))"

definition start :: "collab \<Rightarrow> app \<Rightarrow> outcome" where
  "start c a = seq [start_setup c, run_loop c] a"

subsection \<open>The launch of the application\<close>

definition initialize :: "collab \<Rightarrow> app \<Rightarrow> outcome" where
  \<comment> \<open>Modelled from the spec: the inherited \<^verbatim>\<open>initialize\<close> of the application class is
      not part of this source file. Initialization (managers, then routes) runs before
      the network listener is created, as the class's docstring lists the steps.\<close>
  "initialize c a = seq [init_configurables c, init_webapp c, ext c InitHttpServer] a"

definition launch_instance :: "collab \<Rightarrow> app \<Rightarrow> outcome" where
  \<comment> \<open>Modelled from the spec: the inherited \<^verbatim>\<open>launch_instance\<close> initializes the
      application and then starts it; the event loop serves only after that.\<close>
  "launch_instance c a = seq [initialize c, start c] a"

subsection \<open>Stages of initialization\<close>

datatype stage =
    Spec_catalog
  | Execution_manager
  | Session_registry
  | Session_recovery
  | Personality
  | Personality_hook

fun stage_of :: "event \<Rightarrow> stage option" where
  "stage_of (Called NewKernelSpecManager) = Some Spec_catalog"
| "stage_of (Called NewKernelSpecManagerClass) = Some Spec_catalog"
| "stage_of (Called (NewKernelManager kw)) = Some Execution_manager"
| "stage_of (Called NewSessionManager) = Some Session_registry"
| "stage_of (Called (NewKernelSessionManager kw)) = Some Session_registry"
| "stage_of (Called StartSessions) = Some Session_recovery"
| "stage_of (Called CreatePersonality) = Some Personality"
| "stage_of (Called PersonalityInitConfigurables) = Some Personality_hook"
| "stage_of e = None"

definition stages :: "event list \<Rightarrow> stage list" where
  "stages evs = List.map_filter stage_of evs"

definition occurs_before :: "event \<Rightarrow> event \<Rightarrow> event list \<Rightarrow> bool" where
  \<comment> \<open>\<open>x\<close> occurs, and does so before the first \<open>y\<close>.\<close>
  "occurs_before x y evs = (x \<in> set (takeWhile (\<lambda>e. e \<noteq> y) evs))"

definition calls_before_check :: "app \<Rightarrow> call list" where
  \<comment> \<open>The calls of \<^verbatim>\<open>init_configurables\<close> that precede its check of the prespawn count.\<close>
  "calls_before_check a =
     [NewKernelSpecManager] @
     (case seed_uri a of None \<Rightarrow> [] | Some uri \<Rightarrow> [LoadNotebook uri]) @
     [NewKernelSpecManagerClass, NewKernelManager (default_kwargs a), NewSessionManager,
      NewKernelSessionManager (default_kwargs a), StartSessions]"

subsection \<open>Concrete collaborators and applications\<close>

definition interrupted :: collab where
  \<comment> \<open>Collaborators that never raise, but for the loop, which is ended by Ctrl-C.\<close>
  "interrupted =
     \<lparr>raises = (\<lambda>k. if k = IOLoopStart then Some KeyboardInterrupt else None),
      has_initialize_culler = True, getuser = ''gateway'', super_settings = Map.empty\<rparr>"

definition quiet :: collab where
  "quiet = \<lparr>raises = (\<lambda>k. None), has_initialize_culler = True,
            getuser = ''gateway'', super_settings = Map.empty\<rparr>"

definition fresh_app :: app where
  "fresh_app =
     \<lparr>version = ''1.0.0'', seed_uri = None, default_kernel_name = [],
      prespawn_count = None, max_kernels = None,
      api = ''kernel_gateway.jupyter_websocket'',
      impersonation_enabled = False, unauthorized_users = {''root''},
      ws_ping_interval = 30, keyfile = None, ip = ''127.0.0.1'', port = 8888,
      seed_notebook = None, contents_manager = Some ''ContentsManager'',
      web_app_settings = None, io_loop = None,
      handlers = (\<lambda>sig. SIG_DFL), trace = []\<rparr>"

definition serving_app :: app where
  \<comment> \<open>The application while its event loop runs: initialized, and \<^verbatim>\<open>start\<close> executed up
      to the call of the loop.\<close>
  "serving_app = final (seq [initialize quiet, start_setup quiet] fresh_app)"

section \<open>Traces of runs\<close>

text \<open>
  Every step of the application appends to the trace and never reads it. \<open>uniform S f\<close>
  says so for a step \<open>f\<close>, with \<open>S\<close> the events that \<open>f\<close> may append; \<open>init_events\<close> is
  what a successful \<^verbatim>\<open>init_configurables\<close> appends.
\<close>

definition retrace :: "event list \<Rightarrow> outcome \<Rightarrow> outcome" where
  "retrace t r = (case r of Inl (e, b) \<Rightarrow> Inl (e, b\<lparr>trace := t\<rparr>) | Inr b \<Rightarrow> Inr (b\<lparr>trace := t\<rparr>))"

definition uniform :: "event set \<Rightarrow> (app \<Rightarrow> outcome) \<Rightarrow> bool" where
  "uniform S f =
     (\<forall>a. \<exists>evs. set evs \<subseteq> S \<and> trace (final (f a)) = trace a @ evs \<and>
             (\<forall>t. f (a\<lparr>trace := t\<rparr>) = retrace (t @ evs) (f a)))"

definition init_allowed :: "event set" where
  "init_allowed = - {Called InitHttpServer, Called IOLoopStart}"

definition init_events :: "collab \<Rightarrow> app \<Rightarrow> event list" where
  "init_events c a =
     [Called NewKernelSpecManager] @
     (case seed_uri a of None \<Rightarrow> [] | Some uri \<Rightarrow> [Called (LoadNotebook uri)]) @
     [Called NewKernelSpecManagerClass, Called (NewKernelManager (default_kwargs a))] @
     (if has_initialize_culler c then [] else [Log_warning culler_warning]) @
     [Called NewSessionManager, Called (NewKernelSessionManager (default_kwargs a)),
      Called StartSessions, Called (LoadApiModule (api a)), Called GetattrCreatePersonality,
      Called CreatePersonality, Called PersonalityInitConfigurables]"

section \<open>Resolution of tunables\<close>





lemma trait_validate_accepts:
  "trait_validate s v = Inr v \<longleftrightarrow>
     (case v of
        PNone \<Rightarrow> allow_none s
      | PStr x \<Rightarrow> declared_kind s = KString
      | PInt i \<Rightarrow> declared_kind s = KInt
      | PBool b \<Rightarrow> declared_kind s = KInt \<or> declared_kind s = KBool
      | PList xs \<Rightarrow> declared_kind s = KList
      | PSet S \<Rightarrow> declared_kind s = KSet)"
  by (cases v; cases "declared_kind s") (simp_all add: trait_validate_def)



lemma conductor_endpoint_unset_refused:
  "resolve ConductorEndpoint None Map.empty = Inl TraitError"
  by (simp add: resolve_def trait_validate_def conductor_endpoint_default_def os_getenv_def
        conductor_endpoint_default_value_def)

lemma override_list_stored_as_set:
  "resolve UnauthorizedUsers (Some (PList [''root'', ''admin'', ''root''])) env =
     Inr (PSet {''root'', ''admin''})"
  by (auto simp: resolve_def trait_validate_def)


lemma impersonation_enabled_reads_true:
  "impersonation_enabled_default env =
     Inr (PBool (case env impersonation_enabled_env of
                   None \<Rightarrow> False
                 | Some str \<Rightarrow> lower str = ''true''))"
  by (simp add: impersonation_enabled_default_def os_getenv_def py_lower_def py_bool_def
        lower_def lower_char_def split: option.splits)




text \<open>
  C5 at the input \<^verbatim>\<open>EG_YARN_ENDPOINT_SECURITY_ENABLED=false\<close>: the default function
  applies \<^verbatim>\<open>bool\<close> to the string, and every non-empty string is true. The sibling
  \<^verbatim>\<open>impersonation_enabled_default\<close> compares the lowered string with \<^verbatim>\<open>true\<close>
  (lemma \<open>impersonation_enabled_reads_true\<close>).
\<close>

theorem yarn_security_false_reads_true:
  "yarn_endpoint_security_enabled_default
     (Map.empty(''EG_YARN_ENDPOINT_SECURITY_ENABLED'' \<mapsto> ''false'')) = Inr (PBool True) \<and>
   env_reading KBool ''false'' = Inr (PBool False)"
  by (simp add: yarn_endpoint_security_enabled_default_def os_getenv_def
        yarn_endpoint_security_enabled_env_def py_bool_def lower_def lower_char_def)

section \<open>Runs of the application\<close>

lemma final_simps [simp]: "final (Inr a) = a" "final (Inl (e, a)) = a"
  by (simp_all add: final_def)

lemma raised_simps [simp]: "raised (Inr a) = None" "raised (Inl (e, a)) = Some e"
  by (simp_all add: raised_def)

lemma retrace_simps [simp]:
  "retrace t (Inr b) = Inr (b\<lparr>trace := t\<rparr>)"
  "retrace t (Inl (e, b)) = Inl (e, b\<lparr>trace := t\<rparr>)"
  by (simp_all add: retrace_def)

lemma raised_retrace [simp]: "raised (retrace t r) = raised r"
  by (cases r) auto

lemma trace_final_retrace [simp]: "trace (final (retrace t r)) = t"
  by (cases r) auto

lemma uniformI:
  assumes "\<And>a. \<exists>evs. set evs \<subseteq> S \<and> trace (final (f a)) = trace a @ evs \<and>
             (\<forall>t. f (a\<lparr>trace := t\<rparr>) = retrace (t @ evs) (f a))"
  shows "uniform S f"
  using assms unfolding uniform_def by blast

lemma uniformD:
  assumes "uniform S f"
  shows "\<exists>evs. set evs \<subseteq> S \<and> trace (final (f a)) = trace a @ evs \<and>
           (\<forall>t. f (a\<lparr>trace := t\<rparr>) = retrace (t @ evs) (f a))"
  using assms unfolding uniform_def by blast

lemma uniform_seq:
  assumes "\<forall>f \<in> set fs. uniform S f"
  shows "uniform S (seq fs)"
  using assms
proof (induction fs)
  case Nil
  show ?case
    by (rule uniformI) (rule exI [of _ "[]"], simp)
next
  case (Cons f fs)
  then have uf: "uniform S f" and us: "uniform S (seq fs)"
    by simp_all
  show ?case
  proof (rule uniformI)
    fix a
    from uniformD [OF uf, of a]
    obtain evs1 where e1: "set evs1 \<subseteq> S" "trace (final (f a)) = trace a @ evs1"
      and r1: "\<And>t. f (a\<lparr>trace := t\<rparr>) = retrace (t @ evs1) (f a)"
      by blast
    show "\<exists>evs. set evs \<subseteq> S \<and> trace (final (seq (f # fs) a)) = trace a @ evs \<and>
             (\<forall>t. seq (f # fs) (a\<lparr>trace := t\<rparr>) = retrace (t @ evs) (seq (f # fs) a))"
    proof (cases "f a")
      case (Inl p)
      obtain e b where p: "p = (e, b)" by (cases p)
      with Inl e1 r1 show ?thesis
        by (intro exI [of _ evs1]) simp
    next
      case (Inr b)
      from uniformD [OF us, of b]
      obtain evs2 where e2: "set evs2 \<subseteq> S"
          "trace (final (seq fs b)) = trace b @ evs2"
        and r2: "\<And>t. seq fs (b\<lparr>trace := t\<rparr>) = retrace (t @ evs2) (seq fs b)"
        by blast
      from Inr e1 have tb: "trace b = trace a @ evs1" by simp
      show ?thesis
      proof (intro exI [of _ "evs1 @ evs2"] conjI allI)
        show "set (evs1 @ evs2) \<subseteq> S" using e1 e2 by simp
        show "trace (final (seq (f # fs) a)) = trace a @ evs1 @ evs2"
          using Inr e2 tb by simp
        fix t
        show "seq (f # fs) (a\<lparr>trace := t\<rparr>) = retrace (t @ evs1 @ evs2) (seq (f # fs) a)"
          using Inr r1 [of t] r2 [of "t @ evs1"] by simp
      qed
    qed
  qed
qed

lemma uniform_ext_dep:
  assumes "\<And>a. Called (k a) \<in> S" and "\<And>a t. k (a\<lparr>trace := t\<rparr>) = k a"
  shows "uniform S (\<lambda>a. ext c (k a) a)"
proof (rule uniformI)
  fix a
  show "\<exists>evs. set evs \<subseteq> S \<and> trace (final (ext c (k a) a)) = trace a @ evs \<and>
          (\<forall>t. ext c (k (a\<lparr>trace := t\<rparr>)) (a\<lparr>trace := t\<rparr>) = retrace (t @ evs) (ext c (k a) a))"
  proof (cases "raises c (k a)")
    case None
    with assms show ?thesis
      by (intro exI [of _ "[Called (k a)]"]) (simp add: ext_def)
  next
    case (Some e)
    with assms show ?thesis
      by (intro exI [of _ "[]"]) (simp add: ext_def)
  qed
qed

lemma uniform_ext: "Called k \<in> S \<Longrightarrow> uniform S (ext c k)"
  using uniform_ext_dep [of "\<lambda>a. k" S c] by simp

lemma uniform_log_info_dep:
  assumes "\<And>a. Log_info (m a) \<in> S" and "\<And>a t. m (a\<lparr>trace := t\<rparr>) = m a"
  shows "uniform S (\<lambda>a. log_info (m a) a)"
  by (rule uniformI, rule_tac x = "[Log_info (m a)]" in exI) (simp add: log_info_def assms)

lemma uniform_log_info: "Log_info m \<in> S \<Longrightarrow> uniform S (log_info m)"
  using uniform_log_info_dep [of "\<lambda>a. m" S] by simp

lemma uniform_log_warning: "Log_warning m \<in> S \<Longrightarrow> uniform S (log_warning m)"
  by (rule uniformI, rule_tac x = "[Log_warning m]" in exI) (simp add: log_warning_def)

lemma uniform_silent:
  assumes "\<And>a. trace (final (f a)) = trace a"
    and "\<And>a t. f (a\<lparr>trace := t\<rparr>) = retrace t (f a)"
  shows "uniform S f"
  by (rule uniformI, rule_tac x = "[]" in exI) (simp add: assms)

lemma uniform_load_seed_notebook:
  assumes "\<forall>uri. Called (LoadNotebook uri) \<in> S"
  shows "uniform S (load_seed_notebook c)"
proof (rule uniformI)
  fix a
  show "\<exists>evs. set evs \<subseteq> S \<and> trace (final (load_seed_notebook c a)) = trace a @ evs \<and>
          (\<forall>t. load_seed_notebook c (a\<lparr>trace := t\<rparr>) = retrace (t @ evs) (load_seed_notebook c a))"
  proof (cases "seed_uri a")
    case None
    then show ?thesis
      by (intro exI [of _ "[]"]) (simp add: load_seed_notebook_def)
  next
    case (Some uri)
    show ?thesis
    proof (cases "raises c (LoadNotebook uri)")
      case None
      with Some assms show ?thesis
        by (intro exI [of _ "[Called (LoadNotebook uri)]"]) (simp add: load_seed_notebook_def ext_def)
    next
      case (Some e)
      with \<open>seed_uri a = Some uri\<close> show ?thesis
        by (intro exI [of _ "[]"]) (simp add: load_seed_notebook_def ext_def)
    qed
  qed
qed

lemma uniform_detect_culler: "Log_warning culler_warning \<in> S \<Longrightarrow> uniform S (detect_culler c)"
  by (rule uniformI, rule_tac x = "if has_initialize_culler c then [] else [Log_warning culler_warning]" in exI)
     (simp add: detect_culler_def log_warning_def)

lemma uniform_check_prespawn: "uniform S check_prespawn"
  by (rule uniform_silent) (simp_all add: check_prespawn_def split: option.splits)

lemma uniform_clear_seed_notebook: "uniform S (\<lambda>a. Inr (a\<lparr>seed_notebook := None\<rparr>))"
  by (rule uniform_silent) simp_all

lemma uniform_clear_contents_manager:
  "uniform S (\<lambda>a. Inr (a\<lparr>contents_manager := None\<rparr>))"
  by (rule uniform_silent) simp_all

lemma uniform_new_kernel_manager:
  "\<forall>kw. Called (NewKernelManager kw) \<in> S \<Longrightarrow>
   uniform S (\<lambda>a. ext c (NewKernelManager (default_kwargs a)) a)"
  by (rule uniform_ext_dep) (simp_all add: default_kwargs_def)

lemma uniform_new_kernel_session_manager:
  "\<forall>kw. Called (NewKernelSessionManager kw) \<in> S \<Longrightarrow>
   uniform S (\<lambda>a. ext c (NewKernelSessionManager (default_kwargs a)) a)"
  by (rule uniform_ext_dep) (simp_all add: default_kwargs_def)

lemma uniform_load_api_module:
  "\<forall>m. Called (LoadApiModule m) \<in> S \<Longrightarrow> uniform S (\<lambda>a. ext c (LoadApiModule (api a)) a)"
  by (rule uniform_ext_dep) simp_all

lemma uniform_init_configurables: "uniform init_allowed (init_configurables c)"
  unfolding init_configurables_def [abs_def]
  by (rule uniform_seq)
     (simp add: init_allowed_def uniform_ext uniform_clear_seed_notebook
        uniform_load_seed_notebook uniform_new_kernel_manager uniform_detect_culler
        uniform_new_kernel_session_manager uniform_check_prespawn uniform_load_api_module
        uniform_clear_contents_manager)

lemma seq_append:
  "seq (fs @ gs) a = (case seq fs a of Inl e \<Rightarrow> Inl e | Inr b \<Rightarrow> seq gs b)"
  by (induction fs arbitrary: a) (auto split: sum.splits)

lemma seq_Inr_Nil: "seq [] a = Inr a' \<longleftrightarrow> a' = a"
  by auto

lemma seq_ext_Inr:
  "seq (ext c k # fs) a = Inr a' \<longleftrightarrow>
     raises c k = None \<and> seq fs (a\<lparr>trace := trace a @ [Called k]\<rparr>) = Inr a'"
  by (simp add: ext_def split: option.splits)

lemma seq_ext_dep_Inr:
  "seq ((\<lambda>a. ext c (k a) a) # fs) a = Inr a' \<longleftrightarrow>
     raises c (k a) = None \<and> seq fs (a\<lparr>trace := trace a @ [Called (k a)]\<rparr>) = Inr a'"
  by (simp add: ext_def split: option.splits)

lemma seq_clear_Inr:
  "seq ((\<lambda>a. Inr (a\<lparr>seed_notebook := None\<rparr>)) # fs) a = Inr a' \<longleftrightarrow>
     seq fs (a\<lparr>seed_notebook := None\<rparr>) = Inr a'"
  by simp

lemma seq_clear_contents_Inr:
  "seq ((\<lambda>a. Inr (a\<lparr>contents_manager := None\<rparr>)) # fs) a = Inr a' \<longleftrightarrow>
     seq fs (a\<lparr>contents_manager := None\<rparr>) = Inr a'"
  by simp

lemma seq_load_seed_notebook_Inr:
  "seq (load_seed_notebook c # fs) a = Inr a' \<longleftrightarrow>
     (case seed_uri a of
        None \<Rightarrow> seq fs a = Inr a'
      | Some uri \<Rightarrow> raises c (LoadNotebook uri) = None \<and>
          seq fs (a\<lparr>trace := trace a @ [Called (LoadNotebook uri)], seed_notebook := Some uri\<rparr>) = Inr a')"
  by (simp add: load_seed_notebook_def ext_def split: option.splits)

lemma seq_detect_culler_Inr:
  "seq (detect_culler c # fs) a = Inr a' \<longleftrightarrow>
     seq fs (a\<lparr>trace := trace a @ (if has_initialize_culler c then [] else [Log_warning culler_warning])\<rparr>) = Inr a'"
  by (simp add: detect_culler_def log_warning_def)

lemma seq_check_prespawn_Inr:
  "seq (check_prespawn # fs) a = Inr a' \<longleftrightarrow>
     (\<forall>p m. prespawn_count a = Some p \<longrightarrow> max_kernels a = Some m \<longrightarrow>
        p \<noteq> 0 \<longrightarrow> m \<noteq> 0 \<longrightarrow> \<not> m < p) \<and>
     seq fs a = Inr a'"
  by (auto simp: check_prespawn_def split: option.splits)

lemmas seq_Inr_rules = seq_ext_Inr seq_ext_dep_Inr seq_clear_Inr seq_clear_contents_Inr
  seq_load_seed_notebook_Inr
  seq_detect_culler_Inr seq_check_prespawn_Inr seq_Inr_Nil

lemma init_success:
  assumes "init_configurables c a = Inr a'"
  shows "trace a' = trace a @ init_events c a"
proof (cases "seed_uri a")
  case None
  with assms show ?thesis
    by (simp del: seq.simps add: init_configurables_def seq_Inr_rules init_events_def
          default_kwargs_def)
next
  case (Some uri)
  with assms show ?thesis
    by (simp del: seq.simps add: init_configurables_def seq_Inr_rules init_events_def
          default_kwargs_def)
qed

lemma raised_None_iff: "raised r = None \<longleftrightarrow> (\<exists>b. r = Inr b)"
  by (cases r) auto

lemma new_events_append:
  "trace (final r) = trace a @ evs \<Longrightarrow> new_events a r = evs"
  by (simp add: new_events_def)

lemma uniform_new_events:
  assumes "uniform S f"
  shows "set (new_events a (f a)) \<subseteq> S"
  using uniformD [OF assms, of a] by (auto simp: new_events_def)

lemma uniform_mono: "uniform S f \<Longrightarrow> S \<subseteq> T \<Longrightarrow> uniform T f"
  unfolding uniform_def by blast

subsection \<open>webapp and start\<close>

lemma uniform_super_init_webapp: "Called SuperInitWebapp \<in> S \<Longrightarrow> uniform S (super_init_webapp c)"
proof (rule uniformI)
  fix a
  assume "Called SuperInitWebapp \<in> S"
  then show "\<exists>evs. set evs \<subseteq> S \<and> trace (final (super_init_webapp c a)) = trace a @ evs \<and>
          (\<forall>t. super_init_webapp c (a\<lparr>trace := t\<rparr>) = retrace (t @ evs) (super_init_webapp c a))"
    by (cases "raises c SuperInitWebapp")
       (rule exI [of _ "[Called SuperInitWebapp]"], simp add: super_init_webapp_def ext_def,
        rule exI [of _ "[]"], simp add: super_init_webapp_def ext_def)
qed

lemma uniform_set_setting: "uniform S (set_setting k v)"
  by (rule uniform_silent) (simp_all add: set_setting_def split: option.splits)

lemma uniform_set_ping:
  "uniform S (\<lambda>a. set_setting k (PInt (ws_ping_interval a * 1000)) a)"
  by (rule uniform_silent) (simp_all add: set_setting_def split: option.splits)

lemma uniform_init_webapp: "uniform UNIV (init_webapp c)"
  unfolding init_webapp_def [abs_def]
  by (rule uniform_seq)
     (simp add: uniform_super_init_webapp uniform_set_setting uniform_set_ping)

lemma uniform_warn_impersonation: "uniform UNIV (warn_impersonation c)"
  by (rule uniformI,
      rule_tac x = "if impersonation_enabled a \<and> lower (getuser c) \<notin> unauthorized_users a
                    then [Log_warning (impersonation_message (getuser c))] else []" in exI)
     (simp add: warn_impersonation_def log_warning_def)

lemma uniform_banner: "uniform UNIV (\<lambda>a. log_info (banner a) a)"
  by (rule uniform_log_info_dep) (simp_all add: banner_def scheme_suffix_def)

lemma uniform_set_io_loop: "uniform S (\<lambda>a. Inr (a\<lparr>io_loop := Some []\<rparr>))"
  by (rule uniform_silent) simp_all

lemma uniform_signal_signal: "uniform S (signal_signal sig h)"
  by (rule uniform_silent) (simp_all add: signal_signal_def)

lemma uniform_start_setup: "uniform UNIV (start_setup c)"
  unfolding start_setup_def [abs_def]
  by (rule uniform_seq)
     (simp add: uniform_ext uniform_banner uniform_warn_impersonation uniform_set_io_loop
        uniform_signal_signal)

lemma uniform_shutdown: "uniform UNIV (shutdown c)"
  unfolding shutdown_def [abs_def] by (rule uniform_ext) simp

lemma uniform_interrupted: 
  "uniform UNIV (seq [log_info ''Interrupted...'', signal_signal SIGINT SIG_IGN, shutdown c])"
  by (rule uniform_seq) (simp add: uniform_log_info uniform_signal_signal uniform_shutdown)

lemma uniform_catch:
  assumes uf: "uniform S f" and ug: "uniform S g" and uh: "\<And>e. uniform S (h e)"
  shows "uniform S (\<lambda>a. case f a of Inr b \<Rightarrow> g b | Inl (e, b) \<Rightarrow> h e b)"
proof (rule uniformI)
  fix a
  from uniformD [OF uf, of a]
  obtain evs1 where e1: "set evs1 \<subseteq> S" "trace (final (f a)) = trace a @ evs1"
    and r1: "\<And>t. f (a\<lparr>trace := t\<rparr>) = retrace (t @ evs1) (f a)"
    by blast
  show "\<exists>evs. set evs \<subseteq> S \<and>
          trace (final (case f a of Inr b \<Rightarrow> g b | Inl (e, b) \<Rightarrow> h e b)) = trace a @ evs \<and>
          (\<forall>t. (case f (a\<lparr>trace := t\<rparr>) of Inr b \<Rightarrow> g b | Inl (e, b) \<Rightarrow> h e b) =
               retrace (t @ evs) (case f a of Inr b \<Rightarrow> g b | Inl (e, b) \<Rightarrow> h e b))"
  proof (cases "f a")
    case (Inl p)
    obtain e b where p: "p = (e, b)" by (cases p)
    from uniformD [OF uh, of e b]
    obtain evs2 where e2: "set evs2 \<subseteq> S" "trace (final (h e b)) = trace b @ evs2"
      and r2: "\<And>t. h e (b\<lparr>trace := t\<rparr>) = retrace (t @ evs2) (h e b)"
      by blast
    from Inl p e1 have tb: "trace b = trace a @ evs1" by simp
    show ?thesis
    proof (intro exI [of _ "evs1 @ evs2"] conjI allI)
      show "set (evs1 @ evs2) \<subseteq> S" using e1 e2 by simp
      show "trace (final (case f a of Inr b \<Rightarrow> g b | Inl (e, b) \<Rightarrow> h e b)) = trace a @ evs1 @ evs2"
        using Inl p e2 tb by simp
      fix t
      show "(case f (a\<lparr>trace := t\<rparr>) of Inr b \<Rightarrow> g b | Inl (e, b) \<Rightarrow> h e b) =
               retrace (t @ evs1 @ evs2) (case f a of Inr b \<Rightarrow> g b | Inl (e, b) \<Rightarrow> h e b)"
        using Inl p r1 [of t] r2 [of "t @ evs1"] by simp
    qed
  next
    case (Inr b)
    from uniformD [OF ug, of b]
    obtain evs2 where e2: "set evs2 \<subseteq> S" "trace (final (g b)) = trace b @ evs2"
      and r2: "\<And>t. g (b\<lparr>trace := t\<rparr>) = retrace (t @ evs2) (g b)"
      by blast
    from Inr e1 have tb: "trace b = trace a @ evs1" by simp
    show ?thesis
    proof (intro exI [of _ "evs1 @ evs2"] conjI allI)
      show "set (evs1 @ evs2) \<subseteq> S" using e1 e2 by simp
      show "trace (final (case f a of Inr b \<Rightarrow> g b | Inl (e, b) \<Rightarrow> h e b)) = trace a @ evs1 @ evs2"
        using Inr e2 tb by simp
      fix t
      show "(case f (a\<lparr>trace := t\<rparr>) of Inr b \<Rightarrow> g b | Inl (e, b) \<Rightarrow> h e b) =
               retrace (t @ evs1 @ evs2) (case f a of Inr b \<Rightarrow> g b | Inl (e, b) \<Rightarrow> h e b)"
        using Inr r1 [of t] r2 [of "t @ evs1"] by simp
    qed
  qed
qed

lemma uniform_reraise:
  assumes uf: "uniform S f"
  shows "uniform S (\<lambda>a. case f a of Inl e' \<Rightarrow> Inl e' | Inr b \<Rightarrow> Inl (e, b))"
proof (rule uniformI)
  fix a
  from uniformD [OF uf, of a]
  obtain evs where e1: "set evs \<subseteq> S" "trace (final (f a)) = trace a @ evs"
    and r1: "\<And>t. f (a\<lparr>trace := t\<rparr>) = retrace (t @ evs) (f a)"
    by blast
  show "\<exists>evs. set evs \<subseteq> S \<and>
          trace (final (case f a of Inl e' \<Rightarrow> Inl e' | Inr b \<Rightarrow> Inl (e, b))) = trace a @ evs \<and>
          (\<forall>t. (case f (a\<lparr>trace := t\<rparr>) of Inl e' \<Rightarrow> Inl e' | Inr b \<Rightarrow> Inl (e, b)) =
               retrace (t @ evs) (case f a of Inl e' \<Rightarrow> Inl e' | Inr b \<Rightarrow> Inl (e, b)))"
  proof (cases "f a")
    case (Inl p)
    obtain e' b where "p = (e', b)" by (cases p)
    with Inl e1 r1 show ?thesis
      by (intro exI [of _ evs]) simp
  next
    case (Inr b)
    with e1 r1 show ?thesis
      by (intro exI [of _ evs]) simp
  qed
qed

lemma uniform_handler:
  "uniform UNIV (\<lambda>a. if e = KeyboardInterrupt
       then seq [log_info ''Interrupted...'', signal_signal SIGINT SIG_IGN, shutdown c] a
       else (case shutdown c a of Inl e' \<Rightarrow> Inl e' | Inr b \<Rightarrow> Inl (e, b)))"
proof (cases "e = KeyboardInterrupt")
  case True
  then show ?thesis
    using uniform_interrupted [of c] by (simp del: seq.simps)
next
  case False
  then show ?thesis
    using uniform_reraise [OF uniform_shutdown, of e c] by simp
qed

lemma uniform_run_loop: "uniform UNIV (run_loop c)"
  unfolding run_loop_def [abs_def]
  by (rule uniform_catch) (simp_all add: uniform_ext uniform_shutdown uniform_handler)

lemma uniform_start: "uniform UNIV (start c)"
  unfolding start_def [abs_def]
  by (rule uniform_seq) (simp add: uniform_start_setup uniform_run_loop)

lemma uniform_after_init: "uniform UNIV (seq [init_webapp c, ext c InitHttpServer, start c])"
  by (rule uniform_seq) (simp add: uniform_init_webapp uniform_ext uniform_start)

lemma launch_instance_unfold:
  "launch_instance c a =
     (case init_configurables c a of
        Inl e \<Rightarrow> Inl e
      | Inr b \<Rightarrow> seq [init_webapp c, ext c InitHttpServer, start c] b)"
  by (simp add: launch_instance_def initialize_def split: sum.splits)

lemma init_prespawn_ok:
  assumes "init_configurables c a = Inr a'"
    and "prespawn_count a = Some p" and "max_kernels a = Some m" and "p \<noteq> 0" and "m \<noteq> 0"
  shows "\<not> m < p"
proof (cases "seed_uri a")
  case None
  with assms show ?thesis
    by (simp del: seq.simps add: init_configurables_def seq_Inr_rules)
next
  case (Some uri)
  with assms show ?thesis
    by (simp del: seq.simps add: init_configurables_def seq_Inr_rules)
qed

lemma default_kwargs_frame:
  "default_kwargs (a\<lparr>trace := t\<rparr>) = default_kwargs a"
  "default_kwargs (a\<lparr>seed_notebook := n\<rparr>) = default_kwargs a"
  by (simp_all add: default_kwargs_def)

lemma init_prespawn_raises:
  assumes "\<forall>k \<in> set (calls_before_check a). raises c k = None"
    and "prespawn_count a = Some p" "max_kernels a = Some m" "p \<noteq> 0" "m \<noteq> 0" "m < p"
  shows "raised (init_configurables c a) = Some (RuntimeError (prespawn_message p m))"
proof (cases "seed_uri a")
  case None
  with assms show ?thesis
    by (simp add: calls_before_check_def init_configurables_def ext_def
          load_seed_notebook_def detect_culler_def log_warning_def check_prespawn_def
          default_kwargs_frame)
next
  case (Some uri)
  with assms show ?thesis
    by (simp add: calls_before_check_def init_configurables_def ext_def
          load_seed_notebook_def detect_culler_def log_warning_def check_prespawn_def
          default_kwargs_frame)
qed

lemma launch_of_failed_init:
  "init_configurables c a = Inl p \<Longrightarrow> launch_instance c a = Inl p"
  by (simp add: launch_instance_unfold)

text \<open>
  C3, as the code has it. When the prespawn count and the limit \<^verbatim>\<open>max_kernels\<close> are both
  set and non-zero and the count exceeds the limit, \<^verbatim>\<open>init_configurables\<close> raises: the
  \<^verbatim>\<open>RuntimeError\<close> of the check when none of the calls before the check raised. The launch
  ends with that error; no HTTP server is created and the loop is never started.
\<close>

theorem prespawn_over_max_aborts:
  assumes "prespawn_count a = Some p" and "max_kernels a = Some m"
    and "p \<noteq> 0" and "m \<noteq> 0" and "m < p"
  shows "raised (init_configurables c a) \<noteq> None \<and>
         ((\<forall>k \<in> set (calls_before_check a). raises c k = None) \<longrightarrow>
            raised (init_configurables c a) = Some (RuntimeError (prespawn_message p m))) \<and>
         launch_instance c a = init_configurables c a \<and>
         Called InitHttpServer \<notin> set (new_events a (launch_instance c a)) \<and>
         Called IOLoopStart \<notin> set (new_events a (launch_instance c a))"
proof -
  have failed: "raised (init_configurables c a) \<noteq> None"
  proof
    assume "raised (init_configurables c a) = None"
    then obtain b where "init_configurables c a = Inr b"
      by (auto simp: raised_None_iff)
    from init_prespawn_ok [OF this assms(1-4)] assms(5) show False
      by simp
  qed
  then obtain q where q: "init_configurables c a = Inl q"
    by (cases "init_configurables c a") auto
  then have same: "launch_instance c a = init_configurables c a"
    by (simp add: launch_of_failed_init)
  have "set (new_events a (init_configurables c a)) \<subseteq> init_allowed"
    by (rule uniform_new_events) (rule uniform_init_configurables)
  with same have "Called InitHttpServer \<notin> set (new_events a (launch_instance c a))"
    and "Called IOLoopStart \<notin> set (new_events a (launch_instance c a))"
    by (auto simp: init_allowed_def)
  with failed same assms show ?thesis
    by (simp add: init_prespawn_raises)
qed

lemmas eval_defs =
  launch_instance_def initialize_def init_configurables_def init_webapp_def start_def
  start_setup_def run_loop_def ext_def log_info_def log_warning_def load_seed_notebook_def
  detect_culler_def check_prespawn_def super_init_webapp_def set_setting_def
  warn_impersonation_def signal_signal_def shutdown_def default_kwargs_def
  quiet_def fresh_app_def new_events_def

text \<open>C3 (amended) at the scenario of the specification: prespawn 5, limit 3.\<close>

theorem prespawn_over_max_aborts_witness:
  "prespawn_count (fresh_app\<lparr>prespawn_count := Some 5, max_kernels := Some 3\<rparr>) = Some 5 \<and>
   max_kernels (fresh_app\<lparr>prespawn_count := Some 5, max_kernels := Some 3\<rparr>) = Some 3 \<and>
   (5::int) \<noteq> 0 \<and> (3::int) \<noteq> 0 \<and> (3::int) < 5 \<and> (\<forall>k. raises quiet k = None) \<and>
   raised (init_configurables quiet (fresh_app\<lparr>prespawn_count := Some 5, max_kernels := Some 3\<rparr>)) =
     Some (RuntimeError ''cannot prespawn 5; more than max kernels 3'') \<and>
   Called InitHttpServer \<notin> set (new_events (fresh_app\<lparr>prespawn_count := Some 5, max_kernels := Some 3\<rparr>)
     (launch_instance quiet (fresh_app\<lparr>prespawn_count := Some 5, max_kernels := Some 3\<rparr>)))"
proof -
  let ?a = "fresh_app\<lparr>prespawn_count := Some 5, max_kernels := Some 3\<rparr>"
  have h: "prespawn_count ?a = Some 5" "max_kernels ?a = Some 3"
    by simp_all
  have q: "\<forall>k. raises quiet k = None"
    by (simp add: quiet_def)
  have m: "prespawn_message 5 3 = ''cannot prespawn 5; more than max kernels 3''"
    by (simp add: prespawn_message_def str_int_def str_nat.simps char_of_def bit_Suc_0_iff)
  have t: "raised (init_configurables quiet ?a) \<noteq> None \<and>
         ((\<forall>k \<in> set (calls_before_check ?a). raises quiet k = None) \<longrightarrow>
            raised (init_configurables quiet ?a) = Some (RuntimeError (prespawn_message 5 3))) \<and>
         launch_instance quiet ?a = init_configurables quiet ?a \<and>
         Called InitHttpServer \<notin> set (new_events ?a (launch_instance quiet ?a)) \<and>
         Called IOLoopStart \<notin> set (new_events ?a (launch_instance quiet ?a))"
    by (rule prespawn_over_max_aborts [OF h]) simp_all
  from t q have r: "raised (init_configurables quiet ?a) = Some (RuntimeError (prespawn_message 5 3))"
    by blast
  from t have n: "Called InitHttpServer \<notin> set (new_events ?a (launch_instance quiet ?a))"
    by blast
  from h q r n show ?thesis
    by (simp only: m) simp
qed

text \<open>
  C3 as stated fails: with a prespawn count of 5 and a limit of 0 the check is skipped
  (\<^verbatim>\<open>self.max_kernels\<close> is falsy), initialization succeeds and the listener is created.
\<close>

theorem prespawn_zero_max_counterexample:
  "raised (init_configurables quiet (fresh_app\<lparr>prespawn_count := Some 5, max_kernels := Some 0\<rparr>)) = None \<and>
   Called InitHttpServer \<in> set (new_events (fresh_app\<lparr>prespawn_count := Some 5, max_kernels := Some 0\<rparr>)
     (launch_instance quiet (fresh_app\<lparr>prespawn_count := Some 5, max_kernels := Some 0\<rparr>)))"
  by (simp add: eval_defs)

lemma serving_app_eval:
  "io_loop serving_app = Some []"
  "handlers serving_app SIGTERM = Signal_stop"
  "handlers serving_app SIGHUP = SIG_IGN"
  by (simp_all add: serving_app_def eval_defs)

text \<open>
  C1 at a terminate signal delivered while the loop runs: the handler that \<^verbatim>\<open>start\<close>
  installs for \<^verbatim>\<open>SIGTERM\<close> is \<^verbatim>\<open>_signal_stop\<close>, and it stops the event loop inline:
  it queues nothing and never stops the HTTP server. The sibling \<^verbatim>\<open>stop\<close> does what the
  claim describes: it does no work inline and queues the stop sequence.
\<close>

theorem signal_stop_stops_inline:
  "handlers serving_app SIGTERM = Signal_stop \<and>
   new_events serving_app (signal_stop quiet SIGTERM () serving_app) =
     [Log_info ''Received signal to terminate Enterprise Gateway.'', Called IOLoopStop] \<and>
   io_loop (final (signal_stop quiet SIGTERM () serving_app)) = Some [] \<and>
   new_events serving_app (stop serving_app) = [] \<and>
   io_loop (final (stop serving_app)) = Some [Stop_callback]"
  by (simp add: serving_app_eval signal_stop_def stop_def add_callback_def io_loop_stop_def
        ext_def log_info_def new_events_def quiet_def)

text \<open>
  C7 at the gateway user \<^verbatim>\<open>Admin\<close> with the deny set \<^verbatim>\<open>{Admin}\<close> and impersonation
  enabled: the user is in the set, yet the warning that it is not is logged, since the
  code looks up the lowered name \<^verbatim>\<open>admin\<close>.
\<close>

theorem impersonation_warning_lowers_user:
  "getuser (quiet\<lparr>getuser := ''Admin''\<rparr>) \<in>
     unauthorized_users (fresh_app\<lparr>impersonation_enabled := True, unauthorized_users := {''Admin''}\<rparr>) \<and>
   Log_warning (impersonation_message ''Admin'') \<in>
     set (new_events (fresh_app\<lparr>impersonation_enabled := True, unauthorized_users := {''Admin''}\<rparr>)
       (start_setup (quiet\<lparr>getuser := ''Admin''\<rparr>)
          (fresh_app\<lparr>impersonation_enabled := True, unauthorized_users := {''Admin''}\<rparr>)))"
  by (simp add: eval_defs lower_def lower_char_def Let_def char_of_def bit_Suc_0_iff)

lemma stages_init_events:
  "stages (init_events c a) =
     [Spec_catalog, Spec_catalog, Execution_manager, Session_registry, Session_registry,
      Session_recovery, Personality, Personality_hook]"
  by (simp add: stages_def init_events_def List.map_filter_def split: option.splits)

lemma last_init_events: "last (init_events c a) = Called PersonalityInitConfigurables"
  by (simp add: init_events_def)

lemma init_events_allowed: "set (init_events c a) \<subseteq> init_allowed"
  by (auto simp: init_events_def init_allowed_def split: option.splits)

lemma recovery_in_init_events: "Called StartSessions \<in> set (init_events c a)"
  by (simp add: init_events_def)

lemma occurs_before_prefix:
  assumes "x \<in> set evs" and "y \<notin> set evs"
  shows "occurs_before x y (evs @ rest)"
proof -
  from assms(2) have "takeWhile (\<lambda>e. e \<noteq> y) (evs @ rest) = evs @ takeWhile (\<lambda>e. e \<noteq> y) rest"
    by (intro takeWhile_append2) auto
  with assms(1) show ?thesis
    by (simp add: occurs_before_def)
qed

text \<open>
  C6. A successful \<^verbatim>\<open>init_configurables\<close> constructs, in this order, the spec catalog,
  the execution manager, the session registry, then recovers the persisted sessions,
  then creates the personality, whose \<^verbatim>\<open>init_configurables\<close> is its last call. And in
  every launch that creates the listener or starts the event loop, the recovery of
  sessions has happened before the listener is created and before the loop starts.
\<close>

theorem initialization_order:
  "(raised (init_configurables c a) = None \<longrightarrow>
      stages (new_events a (init_configurables c a)) =
        [Spec_catalog, Spec_catalog, Execution_manager, Session_registry, Session_registry,
         Session_recovery, Personality, Personality_hook] \<and>
      last (new_events a (init_configurables c a)) = Called PersonalityInitConfigurables) \<and>
   (Called InitHttpServer \<in> set (new_events a (launch_instance c a)) \<or>
    Called IOLoopStart \<in> set (new_events a (launch_instance c a)) \<longrightarrow>
      occurs_before (Called StartSessions) (Called InitHttpServer)
        (new_events a (launch_instance c a)) \<and>
      occurs_before (Called StartSessions) (Called IOLoopStart)
        (new_events a (launch_instance c a)))"
proof (intro conjI impI)
  assume "raised (init_configurables c a) = None"
  then obtain b where b: "init_configurables c a = Inr b"
    by (auto simp: raised_None_iff)
  then have "new_events a (init_configurables c a) = init_events c a"
    by (simp add: new_events_append init_success)
  then show "stages (new_events a (init_configurables c a)) =
        [Spec_catalog, Spec_catalog, Execution_manager, Session_registry, Session_registry,
         Session_recovery, Personality, Personality_hook]"
    and "last (new_events a (init_configurables c a)) = Called PersonalityInitConfigurables"
    by (simp_all add: stages_init_events last_init_events)
next
  assume serving: "Called InitHttpServer \<in> set (new_events a (launch_instance c a)) \<or>
    Called IOLoopStart \<in> set (new_events a (launch_instance c a))"
  have "\<exists>rest. new_events a (launch_instance c a) = init_events c a @ rest"
  proof (cases "init_configurables c a")
    case (Inl p)
    then have "launch_instance c a = init_configurables c a"
      by (simp add: launch_of_failed_init)
    moreover have "set (new_events a (init_configurables c a)) \<subseteq> init_allowed"
      by (rule uniform_new_events) (rule uniform_init_configurables)
    ultimately have False
      using serving by (auto simp: init_allowed_def)
    then show ?thesis ..
  next
    case (Inr b)
    then have tb: "trace b = trace a @ init_events c a"
      by (rule init_success)
    from uniformD [OF uniform_after_init, of c b]
    obtain rest where
      "trace (final (seq [init_webapp c, ext c InitHttpServer, start c] b)) = trace b @ rest"
      by blast
    with Inr tb have "trace (final (launch_instance c a)) = trace a @ init_events c a @ rest"
      by (simp add: launch_instance_unfold)
    then have "new_events a (launch_instance c a) = init_events c a @ rest"
      by (rule new_events_append)
    then show ?thesis ..
  qed
  then obtain rest where m: "new_events a (launch_instance c a) = init_events c a @ rest" ..
  have no: "Called InitHttpServer \<notin> set (init_events c a)"
    "Called IOLoopStart \<notin> set (init_events c a)"
    using init_events_allowed [of c a] by (auto simp: init_allowed_def)
  show "occurs_before (Called StartSessions) (Called InitHttpServer)
          (new_events a (launch_instance c a))"
    unfolding m by (rule occurs_before_prefix) (simp_all add: recovery_in_init_events no)
  show "occurs_before (Called StartSessions) (Called IOLoopStart)
          (new_events a (launch_instance c a))"
    unfolding m by (rule occurs_before_prefix) (simp_all add: recovery_in_init_events no)
qed

lemma launch_quiet_events:
  "new_events fresh_app (launch_instance quiet fresh_app) =
     [Called NewKernelSpecManager, Called NewKernelSpecManagerClass, Called (NewKernelManager []),
      Called NewSessionManager, Called (NewKernelSessionManager []), Called StartSessions,
      Called (LoadApiModule ''kernel_gateway.jupyter_websocket''),
      Called GetattrCreatePersonality, Called CreatePersonality,
      Called PersonalityInitConfigurables, Called SuperInitWebapp, Called InitHttpServer,
      Called SuperStart, Log_info (banner fresh_app), Called IOLoopStart, Called Shutdown]"
  by (simp add: eval_defs banner_def scheme_suffix_def)

lemma launch_interrupted_events:
  "new_events fresh_app (launch_instance interrupted fresh_app) =
     [Called NewKernelSpecManager, Called NewKernelSpecManagerClass, Called (NewKernelManager []),
      Called NewSessionManager, Called (NewKernelSessionManager []), Called StartSessions,
      Called (LoadApiModule ''kernel_gateway.jupyter_websocket''),
      Called GetattrCreatePersonality, Called CreatePersonality,
      Called PersonalityInitConfigurables, Called SuperInitWebapp, Called InitHttpServer,
      Called SuperStart, Log_info (banner fresh_app), Log_info ''Interrupted...'',
      Called Shutdown]"
  by (simp add: eval_defs interrupted_def banner_def scheme_suffix_def)

text \<open>
  C6 at the fresh application, with collaborators that never raise and with a loop that
  is ended by Ctrl-C after it served.
\<close>

theorem initialization_order_witness:
  "raised (init_configurables quiet fresh_app) = None \<and>
   stages (new_events fresh_app (init_configurables quiet fresh_app)) =
     [Spec_catalog, Spec_catalog, Execution_manager, Session_registry, Session_registry,
      Session_recovery, Personality, Personality_hook] \<and>
   Called IOLoopStart \<in> set (new_events fresh_app (launch_instance quiet fresh_app)) \<and>
   occurs_before (Called StartSessions) (Called IOLoopStart)
     (new_events fresh_app (launch_instance quiet fresh_app)) \<and>
   Called InitHttpServer \<in> set (new_events fresh_app (launch_instance interrupted fresh_app)) \<and>
   Called IOLoopStart \<notin> set (new_events fresh_app (launch_instance interrupted fresh_app)) \<and>
   occurs_before (Called StartSessions) (Called InitHttpServer)
     (new_events fresh_app (launch_instance interrupted fresh_app))"
proof -
  have ok: "raised (init_configurables quiet fresh_app) = None"
    by (simp add: eval_defs)
  have loop: "Called IOLoopStart \<in> set (new_events fresh_app (launch_instance quiet fresh_app))"
    by (simp add: launch_quiet_events)
  have listener:
    "Called InitHttpServer \<in> set (new_events fresh_app (launch_instance interrupted fresh_app))"
    and noloop:
    "Called IOLoopStart \<notin> set (new_events fresh_app (launch_instance interrupted fresh_app))"
    by (simp_all add: launch_interrupted_events)
  from initialization_order [of quiet fresh_app] initialization_order [of interrupted fresh_app]
    ok loop listener noloop
  show ?thesis
    by blast
qed

text \<open>
  C9. Whenever \<^verbatim>\<open>init_webapp\<close> completes, the web application's setting
  \<^verbatim>\<open>allow_remote_access\<close> is \<^verbatim>\<open>True\<close>, whatever the configuration and whatever
  settings the superclass built.
\<close>

theorem remote_access_always_allowed:
  "init_webapp c a = Inr a' \<Longrightarrow> setting_of a' ''allow_remote_access'' = Some (PBool True)"
  by (auto simp: init_webapp_def super_init_webapp_def ext_def set_setting_def setting_of_def
        split: option.splits sum.splits)

text \<open>C9 at the fresh application.\<close>

theorem remote_access_always_allowed_witness:
  "init_webapp quiet fresh_app = Inr (final (init_webapp quiet fresh_app)) \<and>
   setting_of (final (init_webapp quiet fresh_app)) ''allow_remote_access'' = Some (PBool True)"
proof -
  have r: "init_webapp quiet fresh_app = Inr (final (init_webapp quiet fresh_app))"
    by (simp add: init_webapp_def super_init_webapp_def ext_def set_setting_def quiet_def
          fresh_app_def)
  from r remote_access_always_allowed [OF r] show ?thesis ..
qed

text \<open>
  C10. Whenever \<^verbatim>\<open>init_webapp\<close> completes, the web application's setting
  \<^verbatim>\<open>ws_ping_interval\<close> is the configured interval times 1000.
\<close>

theorem ws_ping_interval_in_milliseconds:
  "init_webapp c a = Inr a' \<Longrightarrow>
   setting_of a' ''ws_ping_interval'' = Some (PInt (ws_ping_interval a * 1000))"
  by (auto simp: init_webapp_def super_init_webapp_def ext_def set_setting_def setting_of_def
        split: option.splits sum.splits)

text \<open>C10 at a configured interval of 0: the stored value is 0.\<close>

theorem ws_ping_interval_in_milliseconds_witness:
  "init_webapp quiet (fresh_app\<lparr>ws_ping_interval := 0\<rparr>) =
     Inr (final (init_webapp quiet (fresh_app\<lparr>ws_ping_interval := 0\<rparr>))) \<and>
   setting_of (final (init_webapp quiet (fresh_app\<lparr>ws_ping_interval := 0\<rparr>))) ''ws_ping_interval'' =
     Some (PInt 0)"
proof -
  have r: "init_webapp quiet (fresh_app\<lparr>ws_ping_interval := 0\<rparr>) =
     Inr (final (init_webapp quiet (fresh_app\<lparr>ws_ping_interval := 0\<rparr>)))"
    by (simp add: init_webapp_def super_init_webapp_def ext_def set_setting_def quiet_def
          fresh_app_def)
  from r ws_ping_interval_in_milliseconds [OF r] show ?thesis
    by simp
qed

lemma stop_repeated:
  "io_loop a = Some q \<Longrightarrow>
   seq (replicate n stop) a = Inr (a\<lparr>io_loop := Some (q @ replicate n Stop_callback)\<rparr>)"
proof (induction n arbitrary: a q)
  case 0
  then show ?case by simp
next
  case (Suc n)
  have "io_loop (a\<lparr>io_loop := Some (q @ [Stop_callback])\<rparr>) = Some (q @ [Stop_callback])"
    by simp
  from Suc.IH [OF this] Suc.prems show ?case
    by (simp add: stop_def add_callback_def replicate_app_Cons_same)
qed

lemma run_stop_callbacks:
  assumes "raises c HttpServerStop = None" and "raises c IOLoopStop = None"
  shows "io_loop b \<noteq> None \<Longrightarrow>
   fold (run_callback c) (replicate n Stop_callback) b =
     b\<lparr>trace := trace b @ concat (replicate n [Called HttpServerStop, Called IOLoopStop])\<rparr>"
proof (induction n arbitrary: b)
  case 0
  then show ?case by simp
next
  case (Suc n)
  from Suc.prems obtain q where q: "io_loop b = Some q" by auto
  with assms have step: "run_callback c Stop_callback b =
      b\<lparr>trace := trace b @ [Called HttpServerStop, Called IOLoopStop]\<rparr>"
    by (simp add: run_callback_def stop_closure_def io_loop_stop_def ext_def)
  have "io_loop (b\<lparr>trace := trace b @ [Called HttpServerStop, Called IOLoopStop]\<rparr>) \<noteq> None"
    using q by simp
  from Suc.IH [OF this] step show ?case
    by simp
qed

text \<open>
  C2, as the code has it. \<^verbatim>\<open>stop\<close> has no guard and the application keeps no lifecycle
  state: each of \<open>n\<close> calls queues one more stop callback, and when the loop runs the
  queued callbacks, the HTTP server and the loop are stopped \<open>n\<close> times.
\<close>

theorem stop_enqueues_every_time:
  assumes "io_loop a = Some []"
  shows "seq (replicate n stop) a = Inr (a\<lparr>io_loop := Some (replicate n Stop_callback)\<rparr>) \<and>
     (raises c HttpServerStop = None \<and> raises c IOLoopStop = None \<longrightarrow>
        new_events a (Inr (run_pending c (final (seq (replicate n stop) a)))) =
          concat (replicate n [Called HttpServerStop, Called IOLoopStop]))"
proof (intro conjI impI)
  from stop_repeated [OF assms, of n]
  show r: "seq (replicate n stop) a = Inr (a\<lparr>io_loop := Some (replicate n Stop_callback)\<rparr>)"
    by simp
  assume "raises c HttpServerStop = None \<and> raises c IOLoopStop = None"
  then have "fold (run_callback c) (replicate n Stop_callback) (a\<lparr>io_loop := Some []\<rparr>) =
     (a\<lparr>io_loop := Some []\<rparr>)\<lparr>trace := trace (a\<lparr>io_loop := Some []\<rparr>) @
        concat (replicate n [Called HttpServerStop, Called IOLoopStop])\<rparr>"
    by (intro run_stop_callbacks) simp_all
  with r show "new_events a (Inr (run_pending c (final (seq (replicate n stop) a)))) =
          concat (replicate n [Called HttpServerStop, Called IOLoopStop])"
    by (simp add: run_pending_def new_events_def)
qed

text \<open>C2 (amended) at three calls of \<^verbatim>\<open>stop\<close> on the serving application.\<close>

theorem stop_enqueues_every_time_witness:
  "io_loop serving_app = Some [] \<and>
   raises quiet HttpServerStop = None \<and> raises quiet IOLoopStop = None \<and>
   seq (replicate 3 stop) serving_app =
     Inr (serving_app\<lparr>io_loop := Some (replicate 3 Stop_callback)\<rparr>) \<and>
   new_events serving_app (Inr (run_pending quiet (final (seq (replicate 3 stop) serving_app)))) =
     concat (replicate 3 [Called HttpServerStop, Called IOLoopStop])"
proof -
  have l: "io_loop serving_app = Some []"
    by (rule serving_app_eval)
  have q: "raises quiet HttpServerStop = None \<and> raises quiet IOLoopStop = None"
    by (simp add: quiet_def)
  from stop_enqueues_every_time [OF l, of 3 quiet] q l show ?thesis
    by blast
qed

text \<open>
  C2 as stated fails: after two calls of \<^verbatim>\<open>stop\<close> two callbacks are queued, and running
  them performs the stop work twice.
\<close>

theorem stop_twice_counterexample:
  "io_loop (final (seq [stop, stop] serving_app)) = Some [Stop_callback, Stop_callback] \<and>
   new_events serving_app (Inr (run_pending quiet (final (seq [stop, stop] serving_app)))) =
     [Called HttpServerStop, Called IOLoopStop, Called HttpServerStop, Called IOLoopStop]"
  by (simp add: serving_app_eval stop_def add_callback_def run_pending_def run_callback_def
        stop_closure_def io_loop_stop_def ext_def new_events_def quiet_def)

lemma ext_culler_irrelevant: "ext (c\<lparr>has_initialize_culler := b\<rparr>) = ext c"
  by (intro ext) (simp add: ext_def)

lemma load_seed_notebook_culler_irrelevant:
  "load_seed_notebook (c\<lparr>has_initialize_culler := b\<rparr>) = load_seed_notebook c"
  by (intro ext) (simp add: load_seed_notebook_def ext_def split: option.splits)

lemma detect_culler_present: "detect_culler (c\<lparr>has_initialize_culler := True\<rparr>) = Inr"
  by (simp add: fun_eq_iff detect_culler_def)

lemma detect_culler_missing:
  "\<not> has_initialize_culler c \<Longrightarrow> detect_culler c = log_warning culler_warning"
  by (simp add: fun_eq_iff detect_culler_def)

lemma ext_Inl_state: "ext c k a = Inl (e, b) \<Longrightarrow> b = a"
  by (auto simp: ext_def split: option.splits)

lemma ext_Inr_trace: "ext c k a = Inr b \<Longrightarrow> trace b = trace a @ [Called k]"
  by (auto simp: ext_def split: option.splits)

text \<open>
  C8. When the kernel manager has no \<^verbatim>\<open>initialize_culler\<close>, initialization ends as it
  does with a kernel manager that has it: with the same error or with none. Its events
  are the same but for the warning, which is logged whenever the kernel manager was
  created.
\<close>

theorem missing_culler_not_fatal:
  assumes missing: "\<not> has_initialize_culler c"
  shows "raised (init_configurables c a) =
       raised (init_configurables (c\<lparr>has_initialize_culler := True\<rparr>) a) \<and>
     filter (\<lambda>e. e \<noteq> Log_warning culler_warning) (new_events a (init_configurables c a)) =
       new_events a (init_configurables (c\<lparr>has_initialize_culler := True\<rparr>) a) \<and>
     (\<forall>kw. Called (NewKernelManager kw) \<in> set (new_events a (init_configurables c a)) \<longrightarrow>
        Log_warning culler_warning \<in> set (new_events a (init_configurables c a)))"
proof -
  let ?W = "Log_warning culler_warning"
  let ?T = "c\<lparr>has_initialize_culler := True\<rparr>"
  define pre where "pre = [ext c NewKernelSpecManager, (\<lambda>a. Inr (a\<lparr>seed_notebook := None\<rparr>)),
    load_seed_notebook c, ext c NewKernelSpecManagerClass]"
  define km where "km = (\<lambda>a. ext c (NewKernelManager (default_kwargs a)) a)"
  define post where "post = [ext c NewSessionManager,
    (\<lambda>a. ext c (NewKernelSessionManager (default_kwargs a)) a), ext c StartSessions,
    (\<lambda>a. Inr (a\<lparr>contents_manager := None\<rparr>)), check_prespawn,
    (\<lambda>a. ext c (LoadApiModule (api a)) a), ext c GetattrCreatePersonality,
    ext c CreatePersonality, ext c PersonalityInitConfigurables]"
  define S where "S = {e. e \<noteq> ?W \<and> (\<forall>kw. e \<noteq> Called (NewKernelManager kw))}"
  have runF: "init_configurables c a = seq (pre @ km # log_warning culler_warning # post) a"
    unfolding pre_def km_def post_def init_configurables_def detect_culler_missing [OF missing]
    by (simp del: seq.simps)
  have runT: "init_configurables ?T a = seq (pre @ km # Inr # post) a"
    unfolding pre_def km_def post_def init_configurables_def ext_culler_irrelevant
      load_seed_notebook_culler_irrelevant detect_culler_present
    by (simp del: seq.simps)
  have upre: "uniform S (seq pre)"
    unfolding pre_def S_def
    by (rule uniform_seq)
       (simp add: uniform_ext uniform_clear_seed_notebook uniform_load_seed_notebook)
  have upost: "uniform (- {?W}) (seq post)"
    unfolding post_def
    by (rule uniform_seq)
       (simp add: uniform_ext uniform_new_kernel_session_manager uniform_check_prespawn
          uniform_load_api_module uniform_clear_contents_manager)
  from uniformD [OF upre, of a]
  obtain evs0 where e0: "set evs0 \<subseteq> S" "trace (final (seq pre a)) = trace a @ evs0"
    by blast
  from e0(1) have noW0: "?W \<notin> set evs0" and noKM0: "\<And>kw. Called (NewKernelManager kw) \<notin> set evs0"
    by (auto simp: S_def)
  from noW0 have filt0: "filter (\<lambda>e. e \<noteq> ?W) evs0 = evs0"
    by (induction evs0) auto
  show ?thesis
  proof (cases "seq pre a")
    case (Inl p)
    then have F: "init_configurables c a = Inl p" and T: "init_configurables ?T a = Inl p"
      by (simp_all add: runF runT seq_append)
    from Inl e0 have "new_events a (Inl p) = evs0"
      by (simp add: new_events_def)
    with F T filt0 noKM0 show ?thesis
      by simp
  next
    case (Inr b1)
    with e0 have t1: "trace b1 = trace a @ evs0"
      by simp
    show ?thesis
    proof (cases "km b1")
      case (Inl p)
      obtain e b where p: "p = (e, b)" by (cases p)
      with Inl have "b = b1"
        unfolding km_def by (auto dest: ext_Inl_state)
      with p t1 have ev: "new_events a (Inl p) = evs0"
        by (simp add: new_events_def)
      from Inl \<open>seq pre a = Inr b1\<close>
      have F: "init_configurables c a = Inl p" and T: "init_configurables ?T a = Inl p"
        by (simp_all add: runF runT seq_append)
      with ev filt0 noKM0 show ?thesis
        by simp
    next
      case (Inr b)
      then have tb: "trace b = trace a @ evs0 @ [Called (NewKernelManager (default_kwargs b1))]"
        unfolding km_def using t1 by (auto dest: ext_Inr_trace)
      from uniformD [OF upost, of b]
      obtain evs where e: "set evs \<subseteq> - {?W}" "trace (final (seq post b)) = trace b @ evs"
        and r: "\<And>t. seq post (b\<lparr>trace := t\<rparr>) = retrace (t @ evs) (seq post b)"
        by blast
      from e(1) have filt: "filter (\<lambda>e. e \<noteq> ?W) evs = evs"
        by (induction evs) auto
      from Inr \<open>seq pre a = Inr b1\<close>
      have T: "init_configurables ?T a = seq post b"
        by (simp add: runT seq_append)
      from Inr \<open>seq pre a = Inr b1\<close>
      have F: "init_configurables c a = retrace (trace b @ [?W] @ evs) (seq post b)"
        using r [of "trace b @ [?W]"] by (simp add: runF seq_append log_warning_def)
      have evT: "new_events a (init_configurables ?T a) =
          evs0 @ [Called (NewKernelManager (default_kwargs b1))] @ evs"
        unfolding T by (rule new_events_append) (simp add: e tb)
      have evF: "new_events a (init_configurables c a) =
          evs0 @ [Called (NewKernelManager (default_kwargs b1))] @ [?W] @ evs"
        unfolding F by (rule new_events_append) (simp add: tb)
      have "raised (init_configurables c a) = raised (init_configurables ?T a)"
        by (simp add: F T)
      with evT evF filt filt0 show ?thesis
        by simp
    qed
  qed
qed

text \<open>C8 at the fresh application with a kernel manager that cannot cull.\<close>

theorem missing_culler_not_fatal_witness:
  "\<not> has_initialize_culler (quiet\<lparr>has_initialize_culler := False\<rparr>) \<and>
   raised (init_configurables (quiet\<lparr>has_initialize_culler := False\<rparr>) fresh_app) = None \<and>
   Called (NewKernelManager []) \<in>
     set (new_events fresh_app (init_configurables (quiet\<lparr>has_initialize_culler := False\<rparr>) fresh_app)) \<and>
   Log_warning culler_warning \<in>
     set (new_events fresh_app (init_configurables (quiet\<lparr>has_initialize_culler := False\<rparr>) fresh_app))"
proof -
  let ?c = "quiet\<lparr>has_initialize_culler := False\<rparr>"
  have h: "\<not> has_initialize_culler ?c"
    by simp
  have okT: "raised (init_configurables (?c\<lparr>has_initialize_culler := True\<rparr>) fresh_app) = None"
    by (simp add: eval_defs)
  have km: "Called (NewKernelManager []) \<in> set (new_events fresh_app (init_configurables ?c fresh_app))"
    by (simp add: eval_defs)
  from missing_culler_not_fatal [OF h, of fresh_app] okT km h show ?thesis
    by metis
qed

end
